theory Spec2Isabelle
  imports Complex_Main "HOL-Library.Char_ord" "HOL-Library.List_Lexorder" "HOL-Library.AList"
    "HOL-Library.Sublist"
begin

section \<open>GLR pipeline: the helpers of app.py\<close>

text \<open>
  A Python \<open>str\<close> is modelled as a \<open>string\<close>, the list of its characters (code points
  below 256). Slices and \<open>find\<close> are written out on lists.
\<close>

subsection \<open>extract_first_json_block\<close>

text \<open>\<open>text.find("{")\<close>: the index of the first opening brace, \<open>None\<close> for Python's \<open>-1\<close>.\<close>

fun find_brace :: "string \<Rightarrow> nat option" where
  "find_brace [] = None"
| "find_brace (c # cs) =
     (if c = CHR ''{'' then Some 0
      else (case find_brace cs of None \<Rightarrow> None | Some i \<Rightarrow> Some (Suc i)))"

text \<open>
  The loop \<open>for i in range(start, len(text))\<close>: the first argument is \<open>text[i:]\<close>, the
  second the counter \<open>braces\<close>, the third \<open>i\<close>. The result is the index \<open>i\<close> at which the
  loop returns, \<open>None\<close> when the loop runs to the end of the text.
\<close>

fun brace_loop :: "string \<Rightarrow> int \<Rightarrow> nat \<Rightarrow> nat option" where
  "brace_loop [] braces i = None"
| "brace_loop (c # cs) braces i =
     (if c = CHR ''{'' then brace_loop cs (braces + 1) (Suc i)
      else if c = CHR ''}'' then
        (if braces - 1 = 0 then Some i else brace_loop cs (braces - 1) (Suc i))
      else brace_loop cs braces (Suc i))"

definition extract_first_json_block :: "string \<Rightarrow> string" where
  "extract_first_json_block text =
     (case find_brace text of
        None \<Rightarrow> []
      | Some start \<Rightarrow>
          (case brace_loop (drop start text) 0 start of
             None \<Rightarrow> []
           | Some i \<Rightarrow> take (i + 1 - start) (drop start text)))"

text \<open>
  The claim's words, for comparison: the nesting depth of a text is the number of its
  opening braces minus the number of its closing braces, and a prefix is balanced when
  it is not empty and its depth is zero.
\<close>

fun depth :: "string \<Rightarrow> int" where
  "depth [] = 0"
| "depth (c # cs) =
     (if c = CHR ''{'' then 1 + depth cs
      else if c = CHR ''}'' then depth cs - 1
      else depth cs)"

definition balanced_at :: "string \<Rightarrow> nat \<Rightarrow> bool" where
  "balanced_at s n \<longleftrightarrow> 0 < n \<and> n \<le> length s \<and> depth (take n s) = 0"

definition from_first_brace :: "string \<Rightarrow> string" where
  "from_first_brace text = dropWhile (\<lambda>c. c \<noteq> CHR ''{'') text"

subsection \<open>Documents\<close>

text \<open>
  A loaded \<open>Document\<close>, as python-docx presents it. Paragraphs are objects that
  \<open>fill_docx\<close> mutates, so a document holds a store \<open>para_text\<close> from paragraph objects
  to their text; the other fields list paragraph objects. The same object may be listed
  more than once, as for a merged cell.

  A cell has its own paragraphs (\<open>cell.paragraphs\<close>) and the tables nested in it
  (\<open>cell.tables\<close>); a table is the list of its rows, a row the list of its cells as
  \<open>row.cells\<close> enumerates them. A header or footer has its own paragraphs and its
  tables. A section has six of them: \<open>header\<close> and \<open>footer\<close>, and those of the first
  page and of the even pages. \<open>doc.paragraphs\<close> and \<open>doc.tables\<close> are the paragraphs and
  the tables directly in the body.

  The accessors of a loaded document are field reads, so the handler
  \<open>except Exception: pass\<close> around the sections has no branch here.
\<close>

type_synonym para_id = nat

datatype cell = Cell (cell_paragraphs: "para_id list") (cell_tables: "cell list list list")

type_synonym table = "cell list list"

record header_footer =
  part_paragraphs :: "para_id list"
  part_tables :: "table list"

record docx_section =
  header :: header_footer
  footer :: header_footer
  first_page_header :: header_footer
  first_page_footer :: header_footer
  even_page_header :: header_footer
  even_page_footer :: header_footer

record document =
  para_text :: "para_id \<Rightarrow> string"
  paragraphs :: "para_id list"
  tables :: "table list"
  sections :: "docx_section list"

subsection \<open>find_placeholders\<close>

text \<open>The character class \<open>[A-Za-z0-9_]\<close> of \<open>PLACEHOLDER_RE\<close>.\<close>

definition is_word_char :: "char \<Rightarrow> bool" where
  "is_word_char c \<longleftrightarrow>
     (CHR ''A'' \<le> c \<and> c \<le> CHR ''Z'') \<or> (CHR ''a'' \<le> c \<and> c \<le> CHR ''z'') \<or>
     (CHR ''0'' \<le> c \<and> c \<le> CHR ''9'') \<or> c = CHR ''_''"

text \<open>
  \<open>PLACEHOLDER_RE.findall(text)\<close> for the pattern \<open>\[([A-Za-z0-9_]+)\]\<close>: the scan goes
  from left to right; at an opening bracket the greedy class takes the longest run of
  word characters, which must be non-empty and followed by a closing bracket (a shorter
  run is followed by a word character, so backtracking finds nothing more). A match
  yields its group and the scan resumes after the closing bracket; otherwise it
  resumes at the next character.
\<close>

function findall_placeholders :: "string \<Rightarrow> string list" where
  "findall_placeholders [] = []"
| "findall_placeholders (c # cs) =
     (if c = CHR ''['' then
        (case dropWhile is_word_char cs of
           [] \<Rightarrow> findall_placeholders cs
         | r # rest \<Rightarrow>
             if r = CHR '']'' \<and> takeWhile is_word_char cs \<noteq> []
             then takeWhile is_word_char cs # findall_placeholders rest
             else findall_placeholders cs)
      else findall_placeholders cs)"
  by pat_completeness auto
termination
proof (relation "measure length")
  fix c :: char and cs r rest
  assume "dropWhile is_word_char cs = r # rest"
  then have "length (r # rest) \<le> length cs"
    by (metis length_dropWhile_le)
  then show "(rest, c # cs) \<in> measure length"
    by simp
qed auto

text \<open>
  The set \<open>found\<close> is kept as a duplicate-free list; \<open>found.add(k)\<close> is \<open>List.insert\<close>.
  \<open>scan\<close> is the inner function of \<open>find_placeholders\<close>.
\<close>

fun scan :: "(para_id \<Rightarrow> string) \<Rightarrow> string list \<Rightarrow> para_id list \<Rightarrow> string list" where
  "scan txt found [] = found"
| "scan txt found (p # ps) = scan txt (fold List.insert (findall_placeholders (txt p)) found) ps"

definition scan_tables ::
  "(para_id \<Rightarrow> string) \<Rightarrow> string list \<Rightarrow> table list \<Rightarrow> string list" where
  "scan_tables txt found ts =
     fold (\<lambda>t found. fold (\<lambda>row found.
             fold (\<lambda>cell found. scan txt found (cell_paragraphs cell)) row found) t found)
       ts found"

definition scan_sections ::
  "(para_id \<Rightarrow> string) \<Rightarrow> string list \<Rightarrow> docx_section list \<Rightarrow> string list" where
  "scan_sections txt found ss =
     fold (\<lambda>s found. scan txt (scan txt found (part_paragraphs (header s)))
                        (part_paragraphs (footer s))) ss found"

definition find_placeholders :: "document \<Rightarrow> string list" where
  "find_placeholders doc =
     (let found = scan (para_text doc) [] (paragraphs doc);
          found = scan_tables (para_text doc) found (tables doc);
          found = scan_sections (para_text doc) found (sections doc)
      in sort found)"

text \<open>
  The paragraphs that the loops of \<open>find_placeholders\<close> read besides \<open>doc.paragraphs\<close>:
  the own paragraphs of the cells of the tables directly in the body, and the own
  paragraphs of the \<open>header\<close> and \<open>footer\<close> of the sections.
\<close>

definition scanned_cell_paragraphs :: "document \<Rightarrow> para_id list" where
  "scanned_cell_paragraphs doc = concat (map cell_paragraphs (concat (concat (tables doc))))"

definition scanned_header_footer_paragraphs :: "document \<Rightarrow> para_id list" where
  "scanned_header_footer_paragraphs doc =
     concat (map (\<lambda>s. part_paragraphs (header s) @ part_paragraphs (footer s)) (sections doc))"

text \<open>
  The claim's words, for comparison: a name occurs inside square brackets in a text; the
  table cell paragraphs of a document are the paragraphs of every cell of its tables,
  those of the tables nested in a cell included; the header and footer paragraphs of a
  section are the paragraphs of its six headers and footers, those of their tables
  included.
\<close>

definition bracketed :: "string \<Rightarrow> string \<Rightarrow> bool" where
  "bracketed name txt \<longleftrightarrow>
     name \<noteq> [] \<and> list_all is_word_char name \<and> sublist (CHR ''['' # name @ [CHR '']'']) txt"

primrec all_cell_paragraphs :: "cell \<Rightarrow> para_id list" where
  "all_cell_paragraphs (Cell ps ts) =
     ps @ concat (concat (concat (map (map (map all_cell_paragraphs)) ts)))"

definition tables_paragraphs :: "table list \<Rightarrow> para_id list" where
  "tables_paragraphs ts = concat (map all_cell_paragraphs (concat (concat ts)))"

definition table_cell_paragraphs :: "document \<Rightarrow> para_id list" where
  "table_cell_paragraphs doc = tables_paragraphs (tables doc)"

definition part_all_paragraphs :: "header_footer \<Rightarrow> para_id list" where
  "part_all_paragraphs part = part_paragraphs part @ tables_paragraphs (part_tables part)"

definition header_footer_paragraphs :: "document \<Rightarrow> para_id list" where
  "header_footer_paragraphs doc =
     concat (map (\<lambda>s. part_all_paragraphs (header s) @ part_all_paragraphs (footer s) @
                       part_all_paragraphs (first_page_header s) @
                       part_all_paragraphs (first_page_footer s) @
                       part_all_paragraphs (even_page_header s) @
                       part_all_paragraphs (even_page_footer s)) (sections doc))"

text \<open>
  Two small templates, used to evaluate the definitions on concrete inputs. The first
  has a body paragraph, a table of one cell and a header. The second has a table whose
  cell holds a nested table, and a header for the first page.
\<close>

definition no_part :: header_footer where
  "no_part = \<lparr>part_paragraphs = [], part_tables = []\<rparr>"

definition demo_template :: document where
  "demo_template =
     \<lparr>para_text = (\<lambda>p. if p = 0 then ''Insured: [INSURED_NAME]''
                      else if p = 1 then ''Inspected [DATE_INSPECTED] for [INSURED_NAME]''
                      else if p = 2 then ''File [CLAIM_NO]''
                      else []),
      paragraphs = [0], tables = [[[Cell [1] []]]],
      sections = [\<lparr>header = \<lparr>part_paragraphs = [2], part_tables = []\<rparr>, footer = no_part,
                    first_page_header = no_part, first_page_footer = no_part,
                    even_page_header = no_part, even_page_footer = no_part\<rparr>]\<rparr>"

definition nested_template :: document where
  "nested_template =
     \<lparr>para_text = (\<lambda>p. if p = 0 then ''outer [OUTER]''
                      else if p = 1 then ''inner [NESTED]''
                      else if p = 2 then ''cover [COVER]''
                      else []),
      paragraphs = [], tables = [[[Cell [0] [[[Cell [1] []]]]]]],
      sections = [\<lparr>header = no_part, footer = no_part,
                    first_page_header = \<lparr>part_paragraphs = [2], part_tables = []\<rparr>,
                    first_page_footer = no_part,
                    even_page_header = no_part, even_page_footer = no_part\<rparr>]\<rparr>"

subsection \<open>Python values\<close>

text \<open>
  The values that \<open>json.loads\<close> produces. A \<open>dict\<close> is an association list in
  insertion order: \<open>d.get(k)\<close> is \<open>map_of d k\<close>, \<open>d[k] = v\<close> is \<open>AList.update k v d\<close>
  (in place for a present key, at the end for a new one).
\<close>

datatype json =
    JNull
  | JBool bool
  | JInt int
  | JFloat real
  | JStr string
  | JArr "json list"
  | JObj "(string \<times> json) list"

type_synonym py_dict = "(string \<times> json) list"

datatype py_error =
    RuntimeError
  | RequestException
  | HTTPError
  | JSONDecodeError
  | AttributeError
  | KeyError
  | TypeError
  | IndexError

definition bind_result :: "py_error + 'a \<Rightarrow> ('a \<Rightarrow> py_error + 'b) \<Rightarrow> py_error + 'b" where
  "bind_result r f = (case r of Inl e \<Rightarrow> Inl e | Inr x \<Rightarrow> f x)"

text \<open>Python's truth value of a value, as \<open>if x\<close> and \<open>not x\<close> test it.\<close>

fun truthy :: "json \<Rightarrow> bool" where
  "truthy JNull = False"
| "truthy (JBool b) = b"
| "truthy (JInt i) = (i \<noteq> 0)"
| "truthy (JFloat r) = (r \<noteq> 0)"
| "truthy (JStr s) = (s \<noteq> [])"
| "truthy (JArr xs) = (xs \<noteq> [])"
| "truthy (JObj kvs) = (kvs \<noteq> [])"

text \<open>\<open>not d.get(k)\<close>: the key is absent (\<open>None\<close>) or its value is falsy.\<close>

definition falsy_get :: "py_dict \<Rightarrow> string \<Rightarrow> bool" where
  "falsy_get d k = (case map_of d k of None \<Rightarrow> True | Some v \<Rightarrow> \<not> truthy v)"

text \<open>\<open>d.setdefault(k, v)\<close> on a dict, giving the dict after the call.\<close>

definition setdefault :: "('k \<times> 'v) list \<Rightarrow> 'k \<Rightarrow> 'v \<Rightarrow> ('k \<times> 'v) list" where
  "setdefault d k v = (case map_of d k of None \<Rightarrow> d @ [(k, v)] | Some _ \<Rightarrow> d)"

text \<open>
  The same calls on a value that need not be a dict: every other value has no method
  \<open>get\<close> or \<open>setdefault\<close> and raises \<open>AttributeError\<close>.
\<close>

definition py_get :: "json \<Rightarrow> string \<Rightarrow> json \<Rightarrow> py_error + json" where
  "py_get x k dflt =
     (case x of
        JObj d \<Rightarrow> Inr (case map_of d k of None \<Rightarrow> dflt | Some v \<Rightarrow> v)
      | _ \<Rightarrow> Inl AttributeError)"

definition py_setdefault :: "json \<Rightarrow> string \<Rightarrow> json \<Rightarrow> py_error + json" where
  "py_setdefault x k v =
     (case x of JObj d \<Rightarrow> Inr (JObj (setdefault d k v)) | _ \<Rightarrow> Inl AttributeError)"

text \<open>\<open>parsed.setdefault(field, {}).setdefault(ph, v)\<close>, giving \<open>parsed\<close> after the calls.\<close>

definition nested_setdefault :: "json \<Rightarrow> string \<Rightarrow> string \<Rightarrow> json \<Rightarrow> py_error + json" where
  "nested_setdefault parsed field ph v =
     (case parsed of
        JObj d \<Rightarrow>
          (let d' = setdefault d field (JObj []) in
           case map_of d' field of
             Some (JObj inner) \<Rightarrow> Inr (JObj (AList.update field (JObj (setdefault inner ph v)) d'))
           | _ \<Rightarrow> Inl AttributeError)
      | _ \<Rightarrow> Inl AttributeError)"

text \<open>
  Subscription \<open>x["key"]\<close> and \<open>x[0]\<close>. A dict from JSON has string keys only, so
  \<open>d[0]\<close> raises \<open>KeyError\<close>; a list or a string indexed by a string, and \<open>None\<close>, a
  boolean or a number indexed by anything, raise \<open>TypeError\<close>.
\<close>

definition subscript_key :: "json \<Rightarrow> string \<Rightarrow> py_error + json" where
  "subscript_key x k =
     (case x of
        JObj d \<Rightarrow> (case map_of d k of None \<Rightarrow> Inl KeyError | Some v \<Rightarrow> Inr v)
      | _ \<Rightarrow> Inl TypeError)"

definition subscript_0 :: "json \<Rightarrow> py_error + json" where
  "subscript_0 x =
     (case x of
        JArr [] \<Rightarrow> Inl IndexError
      | JArr (v # _) \<Rightarrow> Inr v
      | JStr [] \<Rightarrow> Inl IndexError
      | JStr (c # _) \<Rightarrow> Inr (JStr [c])
      | JObj _ \<Rightarrow> Inl KeyError
      | _ \<Rightarrow> Inl TypeError)"

text \<open>\<open>s.strip()\<close>: the whitespace characters of \<open>str\<close> below code point 256.\<close>

definition is_space :: "char \<Rightarrow> bool" where
  "is_space c \<longleftrightarrow>
     (let n = (of_char c :: nat) in (9 \<le> n \<and> n \<le> 13) \<or> (28 \<le> n \<and> n \<le> 32) \<or> n = 133 \<or> n = 160)"

definition strip :: "string \<Rightarrow> string" where
  "strip s = rev (dropWhile is_space (rev (dropWhile is_space s)))"

subsection \<open>The environment\<close>

text \<open>
  What the script takes from outside its own code: the environment variable
  \<open>OPENROUTER_API_KEY\<close>, the parser \<open>json.loads\<close> (\<open>None\<close> when it raises), \<open>str(v)\<close> for
  a value that is not a \<open>str\<close>, the four \<open>re.search\<close> calls of \<open>fallback_structured\<close>
  (each gives the groups the code reads from the match, \<open>None\<close> for no match) and the
  formatted current date.
\<close>

record env =
  api_key :: "string option"
  json_loads :: "string \<Rightarrow> json option"
  py_repr :: "json \<Rightarrow> string"
  search_insured :: "string \<Rightarrow> string option"
  search_address :: "string \<Rightarrow> (string \<times> string \<times> string \<times> string) option"
  search_date :: "string \<Rightarrow> string option"
  search_mortgagee :: "string \<Rightarrow> string option"
  today :: string

definition py_str :: "env \<Rightarrow> json \<Rightarrow> string" where
  "py_str e v = (case v of JStr s \<Rightarrow> s | _ \<Rightarrow> py_repr e v)"

definition loads :: "env \<Rightarrow> string \<Rightarrow> py_error + json" where
  "loads e s = (case json_loads e s of None \<Rightarrow> Inl JSONDecodeError | Some v \<Rightarrow> Inr v)"

subsection \<open>The model endpoint\<close>

text \<open>
  A request carries its messages (one constructor for each prompt the script builds,
  with the values formatted into it), its temperature and its token limit. The endpoint
  is the list of the outcomes it will give to the coming requests, in order; a request
  made when the list is empty fails. \<open>requests.post\<close> returns when the outcome is there:
  \<open>post\<close> records the request and then its outcome in the trace.
\<close>

datatype prompt =
    HighAccuracyPrompt "string list" string
  | StrictValidationPrompt "string list" string
  | FieldAuditPrompt "string list" string
  | VotingPrompt real "string list" string
  | NoMissingPrompt "string list" string

record request =
  messages :: prompt
  temperature :: real
  max_tokens :: nat

datatype http_outcome =
    RequestFailed
  | StatusError
  | BodyNotJson
  | Body json

datatype event = Sent request | Received http_outcome

record world =
  pending :: "http_outcome list"
  trace :: "event list"

definition post :: "request \<Rightarrow> world \<Rightarrow> http_outcome \<times> world" where
  "post rq w =
     (case pending w of
        [] \<Rightarrow> (RequestFailed, w\<lparr>trace := trace w @ [Sent rq, Received RequestFailed]\<rparr>)
      | r # rs \<Rightarrow> (r, \<lparr>pending = rs, trace = trace w @ [Sent rq, Received r]\<rparr>))"

text \<open>\<open>r.raise_for_status()\<close> and \<open>r.json()["choices"][0]["message"]["content"]\<close>.\<close>

definition response_content :: "http_outcome \<Rightarrow> py_error + json" where
  "response_content r =
     (case r of
        RequestFailed \<Rightarrow> Inl RequestException
      | StatusError \<Rightarrow> Inl HTTPError
      | BodyNotJson \<Rightarrow> Inl JSONDecodeError
      | Body b \<Rightarrow>
          bind_result (subscript_key b ''choices'') (\<lambda>choices.
          bind_result (subscript_0 choices) (\<lambda>choice.
          bind_result (subscript_key choice ''message'') (\<lambda>message.
          subscript_key message ''content''))))"

definition call_openrouter :: "env \<Rightarrow> prompt \<Rightarrow> nat \<Rightarrow> world \<Rightarrow> (py_error + json) \<times> world" where
  "call_openrouter e msgs max_tok w =
     (if api_key e = None \<or> api_key e = Some [] then (Inl RuntimeError, w)
      else (let (r, w') = post \<lparr>messages = msgs, temperature = 0, max_tokens = max_tok\<rparr> w
            in (response_content r, w')))"

text \<open>
  \<open>block = extract_first_json_block(out)\<close> and the argument \<open>block if block else out\<close> of
  \<open>json.loads\<close>. The content of a reply that is not a \<open>str\<close> has no method \<open>find\<close>.
\<close>

definition block_or_text :: "json \<Rightarrow> py_error + string" where
  "block_or_text out =
     (case out of
        JStr s \<Rightarrow> (let block = extract_first_json_block s in Inr (if block \<noteq> [] then block else s))
      | _ \<Rightarrow> Inl AttributeError)"

subsection \<open>Extraction modes\<close>

text \<open>
  Each mode gives the value it returns, or the exception it raises, and the endpoint after
  its requests.
\<close>

fun high_accuracy_defaults :: "string list \<Rightarrow> json \<Rightarrow> json \<Rightarrow> py_error + (json \<times> json)" where
  "high_accuracy_defaults [] mapping confidences = Inr (mapping, confidences)"
| "high_accuracy_defaults (ph # phs) mapping confidences =
     bind_result (py_setdefault mapping ph (JStr [])) (\<lambda>mapping'.
     bind_result (py_setdefault confidences ph (JFloat 0)) (\<lambda>confidences'.
     high_accuracy_defaults phs mapping' confidences'))"

definition llm_high_accuracy ::
  "env \<Rightarrow> string list \<Rightarrow> string \<Rightarrow> world \<Rightarrow> (py_error + json) \<times> world" where
  "llm_high_accuracy e placeholders pdf_text w =
     (let (out, w') = call_openrouter e (HighAccuracyPrompt placeholders pdf_text) 1500 w in
      (bind_result out (\<lambda>out.
       bind_result (block_or_text out) (\<lambda>txt.
       bind_result (loads e txt) (\<lambda>parsed.
       bind_result (py_get parsed ''mapping'' (JObj [])) (\<lambda>mapping.
       bind_result (py_get parsed ''confidences'' (JObj [])) (\<lambda>confidences.
       bind_result (high_accuracy_defaults placeholders mapping confidences) (\<lambda>(mapping, confidences).
       Inr (JObj [(''mapping'', mapping), (''confidences'', confidences)]))))))), w'))"

fun strict_defaults :: "string list \<Rightarrow> json \<Rightarrow> py_error + json" where
  "strict_defaults [] parsed = Inr parsed"
| "strict_defaults (ph # phs) parsed =
     bind_result (nested_setdefault parsed ''mapping'' ph (JStr [])) (\<lambda>parsed.
     bind_result (nested_setdefault parsed ''status'' ph (JStr ''MISSING'')) (\<lambda>parsed.
     bind_result (nested_setdefault parsed ''reasons'' ph (JStr [])) (\<lambda>parsed.
     strict_defaults phs parsed)))"

definition llm_strict_validation ::
  "env \<Rightarrow> string list \<Rightarrow> string \<Rightarrow> world \<Rightarrow> (py_error + json) \<times> world" where
  "llm_strict_validation e placeholders pdf_text w =
     (let (out, w') = call_openrouter e (StrictValidationPrompt placeholders pdf_text) 1500 w in
      (bind_result out (\<lambda>out.
       bind_result (block_or_text out) (\<lambda>txt.
       bind_result (loads e txt) (\<lambda>parsed.
       strict_defaults placeholders parsed))), w'))"

fun audit_defaults :: "string list \<Rightarrow> json \<Rightarrow> py_error + json" where
  "audit_defaults [] parsed = Inr parsed"
| "audit_defaults (ph # phs) parsed =
     bind_result (nested_setdefault parsed ''field_values'' ph (JStr [])) (\<lambda>parsed.
     bind_result (nested_setdefault parsed ''evidence'' ph (JStr [])) (\<lambda>parsed.
     audit_defaults phs parsed))"

definition llm_field_audit ::
  "env \<Rightarrow> string list \<Rightarrow> string \<Rightarrow> world \<Rightarrow> (py_error + json) \<times> world" where
  "llm_field_audit e placeholders pdf_text w =
     (let (out, w') = call_openrouter e (FieldAuditPrompt placeholders pdf_text) 1500 w in
      (bind_result out (\<lambda>out.
       bind_result (block_or_text out) (\<lambda>txt.
       bind_result (loads e txt) (\<lambda>parsed.
       audit_defaults placeholders parsed))), w'))"

text \<open>
  \<open>llm_voting\<close>. The candidates are a dict from placeholder to the list of its values.
  \<open>collect_votes\<close> is the inner loop over the placeholders for one parsed reply:
  \<open>parsed.get(ph)\<close> needs a dict, and \<open>parsed[ph].strip()\<close> a \<open>str\<close>.
\<close>

type_synonym candidates = "(string \<times> string list) list"

fun collect_votes :: "string list \<Rightarrow> json \<Rightarrow> candidates \<Rightarrow> py_error + candidates" where
  "collect_votes [] parsed cands = Inr cands"
| "collect_votes (ph # phs) parsed cands =
     (case parsed of
        JObj d \<Rightarrow>
          (case map_of d ph of
             None \<Rightarrow> collect_votes phs parsed cands
           | Some v \<Rightarrow>
               if truthy v then
                 (case v of
                    JStr s \<Rightarrow> collect_votes phs parsed (AList.map_entry ph (\<lambda>vals. vals @ [strip s]) cands)
                  | _ \<Rightarrow> Inl AttributeError)
               else collect_votes phs parsed cands)
      | _ \<Rightarrow> Inl AttributeError)"

text \<open>
  The loop \<open>for t in temps\<close>. A reply that \<open>json.loads\<close> rejects is skipped by
  \<open>continue\<close>; every other exception leaves the function.
\<close>

fun voting_rounds ::
  "env \<Rightarrow> string list \<Rightarrow> string \<Rightarrow> real list \<Rightarrow> candidates \<Rightarrow> world \<Rightarrow>
     (py_error + candidates) \<times> world" where
  "voting_rounds e placeholders pdf_text [] cands w = (Inr cands, w)"
| "voting_rounds e placeholders pdf_text (t # ts) cands w =
     (let (r, w') = post \<lparr>messages = VotingPrompt t placeholders pdf_text,
                           temperature = t, max_tokens = 1200\<rparr> w
      in case bind_result (response_content r) block_or_text of
           Inl err \<Rightarrow> (Inl err, w')
         | Inr txt \<Rightarrow>
             (case json_loads e txt of
                None \<Rightarrow> voting_rounds e placeholders pdf_text ts cands w'
              | Some parsed \<Rightarrow>
                  (case collect_votes placeholders parsed cands of
                     Inl err \<Rightarrow> (Inl err, w')
                   | Inr cands' \<Rightarrow> voting_rounds e placeholders pdf_text ts cands' w')))"

text \<open>
  \<open>collections.Counter(vals)\<close> counts in the order of first occurrence, and
  \<open>most_common(1)[0][0]\<close> is the first value with the greatest count.
\<close>

definition counter :: "string list \<Rightarrow> (string \<times> nat) list" where
  "counter vals =
     fold (\<lambda>v c. case map_of c v of None \<Rightarrow> c @ [(v, 1)] | Some n \<Rightarrow> AList.update v (n + 1) c)
       vals []"

fun first_max :: "(string \<times> nat) list \<Rightarrow> string \<times> nat \<Rightarrow> string \<times> nat" where
  "first_max [] best = best"
| "first_max (x # xs) best = first_max xs (if snd best < snd x then x else best)"

definition winner :: "string list \<Rightarrow> string" where
  "winner vals = (case counter vals of [] \<Rightarrow> [] | x # xs \<Rightarrow> fst (first_max xs x))"

definition final_map :: "candidates \<Rightarrow> py_dict" where
  "final_map cands = map (\<lambda>(ph, vals). (ph, JStr (if vals = [] then [] else winner vals))) cands"

definition votes :: "candidates \<Rightarrow> py_dict" where
  "votes cands =
     map (\<lambda>(ph, vals). (ph, if vals = [] then JArr []
                             else JObj (map (\<lambda>(v, n). (v, JInt (int n))) (counter vals)))) cands"

definition llm_voting ::
  "env \<Rightarrow> string list \<Rightarrow> string \<Rightarrow> nat \<Rightarrow> world \<Rightarrow> (py_error + json) \<times> world" where
  "llm_voting e placeholders pdf_text rounds w =
     (let cands = fold (\<lambda>ph c. AList.update ph [] c) placeholders [];
          temps = take rounds [0, 2 / 10, 6 / 10];
          (res, w') = voting_rounds e placeholders pdf_text temps cands w
      in (bind_result res (\<lambda>cands.
            Inr (JObj [(''mapping'', JObj (final_map cands)),
                       (''votes'', JObj (votes cands)),
                       (''candidates'', JObj (map (\<lambda>(ph, vals). (ph, JArr (map JStr vals))) cands))])),
          w'))"

subsection \<open>fallback_structured\<close>

text \<open>
  The dict \<open>data\<close> has string values only. The groups of a match are never \<open>None\<close> in
  these patterns, so \<open>group(i).strip()\<close> does not raise.
\<close>

type_synonym str_dict = "(string \<times> string) list"

definition fallback_structured :: "env \<Rightarrow> string \<Rightarrow> string list \<Rightarrow> str_dict" where
  "fallback_structured e pdf_text placeholders =
     (let data = fold (\<lambda>k d. AList.update k [] d) placeholders [];
          data = (case search_insured e pdf_text of
                    None \<Rightarrow> data
                  | Some g2 \<Rightarrow> AList.update ''INSURED_NAME'' (strip g2) data);
          data = (case search_address e pdf_text of
                    None \<Rightarrow> data
                  | Some (g1, g2, g3, g4) \<Rightarrow>
                      AList.update ''INSURED_H_ZIP'' (strip g4)
                        (AList.update ''INSURED_H_STATE'' (strip g3)
                          (AList.update ''INSURED_H_CITY'' (strip g2)
                            (AList.update ''INSURED_H_STREET'' (strip g1) data))));
          data = (case search_date e pdf_text of
                    None \<Rightarrow> data
                  | Some g1 \<Rightarrow> AList.update ''DATE_INSPECTED'' g1 data);
          data = (case search_mortgagee e pdf_text of
                    None \<Rightarrow> data
                  | Some g2 \<Rightarrow> AList.update ''MORTGAGEE'' (strip g2) data)
      in if map_of data ''DATE_RECEIVED'' \<noteq> None
         then AList.update ''DATE_RECEIVED'' (today e) data
         else data)"

text \<open>\<open>fallback.get(ph, "")\<close>.\<close>

definition fallback_get :: "str_dict \<Rightarrow> string \<Rightarrow> string" where
  "fallback_get fallback ph = (case map_of fallback ph of None \<Rightarrow> [] | Some s \<Rightarrow> s)"

subsection \<open>fill_docx\<close>

text \<open>
  \<open>f"[{k}]"\<close>, and \<open>txt.replace(old, new)\<close>: the occurrences of \<open>old\<close> are replaced from
  left to right without overlap; an empty \<open>old\<close> matches before every character and at
  the end.
\<close>

definition token :: "string \<Rightarrow> string" where
  "token k = CHR ''['' # k @ [CHR '']'']"

function replace_scan :: "string \<Rightarrow> string \<Rightarrow> string \<Rightarrow> string" where
  "replace_scan old new [] = []"
| "replace_scan old new (c # cs) =
     (if old \<noteq> [] \<and> prefix old (c # cs)
      then new @ replace_scan old new (drop (length old) (c # cs))
      else c # replace_scan old new cs)"
  by pat_completeness auto
termination
  by (relation "measure (\<lambda>(old, new, s). length s)") auto

definition py_replace :: "string \<Rightarrow> string \<Rightarrow> string \<Rightarrow> string" where
  "py_replace txt old new =
     (if old = [] then new @ concat (map (\<lambda>c. c # new) txt) else replace_scan old new txt)"

text \<open>
  The inner function \<open>repl\<close>: \<open>repl_text\<close> is its loop over \<open>mapping.items()\<close> on the
  local \<open>txt\<close>, and \<open>repl\<close> reads \<open>p.text\<close> and assigns the result to it.
\<close>

fun repl_text :: "env \<Rightarrow> py_dict \<Rightarrow> string \<Rightarrow> string" where
  "repl_text e [] txt = txt"
| "repl_text e ((k, v) # items) txt =
     repl_text e items
       (if sublist (token k) txt then py_replace txt (token k) (py_str e v) else txt)"

definition repl :: "env \<Rightarrow> py_dict \<Rightarrow> para_id \<Rightarrow> (para_id \<Rightarrow> string) \<Rightarrow> (para_id \<Rightarrow> string)" where
  "repl e mapping p store = store(p := repl_text e mapping (store p))"

definition fill_docx :: "env \<Rightarrow> document \<Rightarrow> py_dict \<Rightarrow> document" where
  "fill_docx e doc mapping =
     (let store = fold (repl e mapping) (paragraphs doc) (para_text doc);
          store = fold (\<lambda>t. fold (\<lambda>row. fold (\<lambda>cell. fold (repl e mapping) (cell_paragraphs cell)) row) t)
                    (tables doc) store
      in doc\<lparr>para_text := store\<rparr>)"

text \<open>
  The claim's words, for comparison: every occurrence of a token of the mapping in a
  text replaced by the string of its value, the text read once from left to right; and
  the replacements made key after key, each in the text the one before has left.
\<close>

fun token_at :: "env \<Rightarrow> py_dict \<Rightarrow> string \<Rightarrow> (string \<times> string) option" where
  "token_at e [] s = None"
| "token_at e ((k, v) # items) s =
     (if prefix (token k) s then Some (token k, py_str e v) else token_at e items s)"

function replace_tokens :: "env \<Rightarrow> py_dict \<Rightarrow> string \<Rightarrow> string" where
  "replace_tokens e mapping [] = []"
| "replace_tokens e mapping (c # cs) =
     (case token_at e mapping (c # cs) of
        None \<Rightarrow> c # replace_tokens e mapping cs
      | Some (tok, new) \<Rightarrow> new @ replace_tokens e mapping (drop (length tok - 1) cs))"
  by pat_completeness auto
termination
  by (relation "measure (\<lambda>(e, mapping, s). length s)") auto

definition replace_in_order :: "env \<Rightarrow> py_dict \<Rightarrow> string \<Rightarrow> string" where
  "replace_in_order e mapping txt =
     foldl (\<lambda>t (k, v). py_replace t (token k) (py_str e v)) txt mapping"

subsection \<open>The run of an extraction\<close>

text \<open>The loop that fills the blanks of the mapping with the fallback values.\<close>

fun fill_blanks :: "string list \<Rightarrow> str_dict \<Rightarrow> py_dict \<Rightarrow> py_dict" where
  "fill_blanks [] fallback mapping = mapping"
| "fill_blanks (ph # phs) fallback mapping =
     fill_blanks phs fallback
       (if falsy_get mapping ph then AList.update ph (JStr (fallback_get fallback ph)) mapping
        else mapping)"

definition still_empty :: "py_dict \<Rightarrow> string list" where
  "still_empty mapping = map fst (filter (\<lambda>(k, v). v = JStr []) mapping)"

text \<open>
  The loop over \<open>nm_map.items()\<close>: \<open>mapping[k]\<close> raises \<open>KeyError\<close> for a key that the
  mapping does not have, which ends the loop with the assignments made so far. The
  result is the exception raised, if any, and the mapping.
\<close>

fun nm_fill :: "py_dict \<Rightarrow> py_dict \<Rightarrow> py_error option \<times> py_dict" where
  "nm_fill [] mapping = (None, mapping)"
| "nm_fill ((k, v) # items) mapping =
     (case map_of mapping k of
        None \<Rightarrow> (Some KeyError, mapping)
      | Some cur \<Rightarrow> nm_fill items (if cur = JStr [] then AList.update k v mapping else mapping))"

text \<open>
  The inference pass for the values still empty. Its result is the exception that the
  \<open>try\<close> block raised and the bare \<open>except\<close> caught, if any, the mapping, and the
  endpoint.
\<close>

definition no_missing_pass ::
  "env \<Rightarrow> string \<Rightarrow> py_dict \<Rightarrow> world \<Rightarrow> py_error option \<times> py_dict \<times> world" where
  "no_missing_pass e combined_text mapping w =
     (if still_empty mapping = [] then (None, mapping, w)
      else
        (let (nm_out, w') = call_openrouter e (NoMissingPrompt (still_empty mapping) combined_text) 800 w
         in case bind_result nm_out (\<lambda>out. bind_result (block_or_text out) (loads e)) of
              Inl err \<Rightarrow> (Some err, mapping, w')
            | Inr (JObj nm_map) \<Rightarrow> (let (err, mapping') = nm_fill nm_map mapping in (err, mapping', w'))
            | Inr _ \<Rightarrow> (Some AttributeError, mapping, w')))"

text \<open>
  The merge of the mapping of a mode with the fallback: a mapping that is not a dict has
  no method \<open>get\<close> or \<open>items\<close>. The exception caught in the inference pass is dropped.
\<close>

definition merge_mapping ::
  "env \<Rightarrow> string list \<Rightarrow> str_dict \<Rightarrow> string \<Rightarrow> json \<Rightarrow> world \<Rightarrow> (py_error + py_dict) \<times> world" where
  "merge_mapping e placeholders fallback combined_text mapping w =
     (case mapping of
        JObj m \<Rightarrow>
          (let (err, m', w') = no_missing_pass e combined_text (fill_blanks placeholders fallback m) w
           in (Inr m', w'))
      | _ \<Rightarrow> (Inl AttributeError, w))"

datatype mode = HighAccuracy | StrictValidation | FieldAudit | MultiLlmVoting

definition run_mode ::
  "env \<Rightarrow> mode \<Rightarrow> string list \<Rightarrow> string \<Rightarrow> world \<Rightarrow> (py_error + json) \<times> world" where
  "run_mode e m placeholders combined_text w =
     (case m of
        HighAccuracy \<Rightarrow>
          (let (result, w') = llm_high_accuracy e placeholders combined_text w
           in (bind_result result (\<lambda>result. subscript_key result ''mapping''), w'))
      | StrictValidation \<Rightarrow>
          (let (result, w') = llm_strict_validation e placeholders combined_text w
           in (bind_result result (\<lambda>result. subscript_key result ''mapping''), w'))
      | FieldAudit \<Rightarrow>
          (let (result, w') = llm_field_audit e placeholders combined_text w
           in (bind_result result (\<lambda>result. subscript_key result ''field_values''), w'))
      | MultiLlmVoting \<Rightarrow>
          (let (result, w') = llm_voting e placeholders combined_text 3 w
           in (bind_result result (\<lambda>result. subscript_key result ''mapping''), w')))"

text \<open>
  The body of the button ``Run Extraction'', from the uploaded template and the combined
  text of the reports: the final mapping and the document offered for download, or the
  exception that ends the run.
\<close>

definition run_extraction ::
  "env \<Rightarrow> mode \<Rightarrow> document \<Rightarrow> string \<Rightarrow> world \<Rightarrow> (py_error + py_dict \<times> document) \<times> world" where
  "run_extraction e m template combined_text w =
     (let placeholders = find_placeholders template;
          fallback = fallback_structured e combined_text placeholders;
          (mapping, w1) = run_mode e m placeholders combined_text w
      in case mapping of
           Inl err \<Rightarrow> (Inl err, w1)
         | Inr mapping \<Rightarrow>
             (let (merged, w2) = merge_mapping e placeholders fallback combined_text mapping w1
              in case merged of
                   Inl err \<Rightarrow> (Inl err, w2)
                 | Inr final \<Rightarrow> (Inr (final, fill_docx e template final), w2)))"

subsection \<open>Sample inputs\<close>

text \<open>
  Concrete inputs on which the definitions are evaluated. The replies are JSON texts;
  \<open>sample_loads\<close> is \<open>json.loads\<close> on these texts and on texts that hold no JSON value.
  The combined text of the sample runs is empty, on which none of the four patterns of
  \<open>fallback_structured\<close> matches, and \<open>str\<close> is applied to no value but \<open>77\<close> that is
  not a string.
\<close>

definition quoted :: "string \<Rightarrow> string" where
  "quoted s = CHR 0x22 # s @ [CHR 0x22]"

definition reply_mapping :: string where
  "reply_mapping =
     ''Here is the JSON: {'' @ quoted ''mapping'' @ '': {'' @ quoted ''INSURED_NAME'' @ '': '' @
     quoted ''Ann'' @ ''}}''"

definition reply_number :: string where
  "reply_number = ''{'' @ quoted ''mapping'' @ '': {'' @ quoted ''CLAIM_NO'' @ '': 77}}''"

definition reply_cascade :: string where
  "reply_cascade =
     ''{'' @ quoted ''mapping'' @ '': {'' @ quoted ''DATE_INSPECTED'' @ '': '' @
     quoted ''[INSURED_NAME]'' @ '', '' @ quoted ''INSURED_NAME'' @ '': '' @ quoted ''Ann'' @ ''}}''"

definition reply_extra_key :: string where
  "reply_extra_key =
     ''{'' @ quoted ''CLAIM_NO'' @ '': '' @ quoted ''C-7'' @ '', '' @ quoted ''POLICY'' @ '': '' @
     quoted ''P-1'' @ ''}''"

definition reply_fill :: string where
  "reply_fill =
     ''{'' @ quoted ''CLAIM_NO'' @ '': '' @ quoted ''C-7'' @ '', '' @ quoted ''DATE_INSPECTED'' @
     '': '' @ quoted ''01/02/2024'' @ ''}''"

definition reply_prose :: string where
  "reply_prose = ''I could not find any of these fields.''"

definition sample_loads :: "string \<Rightarrow> json option" where
  "sample_loads s =
     (if s = drop 18 reply_mapping then Some (JObj [(''mapping'', JObj [(''INSURED_NAME'', JStr ''Ann'')])])
      else if s = reply_number then Some (JObj [(''mapping'', JObj [(''CLAIM_NO'', JInt 77)])])
      else if s = reply_cascade then
        Some (JObj [(''mapping'', JObj [(''DATE_INSPECTED'', JStr ''[INSURED_NAME]''),
                                        (''INSURED_NAME'', JStr ''Ann'')])])
      else if s = reply_extra_key then Some (JObj [(''CLAIM_NO'', JStr ''C-7''), (''POLICY'', JStr ''P-1'')])
      else if s = reply_fill then
        Some (JObj [(''CLAIM_NO'', JStr ''C-7''), (''DATE_INSPECTED'', JStr ''01/02/2024'')])
      else None)"

definition sample_env :: env where
  "sample_env =
     \<lparr>api_key = Some ''sk-or-sample'', json_loads = sample_loads,
      py_repr = (\<lambda>v. if v = JInt 77 then ''77'' else []),
      search_insured = (\<lambda>s. None), search_address = (\<lambda>s. None),
      search_date = (\<lambda>s. None), search_mortgagee = (\<lambda>s. None),
      today = ''11/04/2026''\<rparr>"

text \<open>The body of a successful completion whose message content is the given text.\<close>

definition chat_reply :: "string \<Rightarrow> http_outcome" where
  "chat_reply content =
     Body (JObj [(''choices'', JArr [JObj [(''message'', JObj [(''content'', JStr content)])]])])"

definition endpoint :: "http_outcome list \<Rightarrow> world" where
  "endpoint outcomes = \<lparr>pending = outcomes, trace = []\<rparr>"

text \<open>The final mapping of a run, and the text of a paragraph of the document it offers.\<close>

definition run_mapping :: "(py_error + py_dict \<times> document) \<times> world \<Rightarrow> py_error + py_dict" where
  "run_mapping r = (case fst r of Inl err \<Rightarrow> Inl err | Inr (final, out) \<Rightarrow> Inr final)"

definition run_text :: "(py_error + py_dict \<times> document) \<times> world \<Rightarrow> para_id \<Rightarrow> py_error + string" where
  "run_text r p = (case fst r of Inl err \<Rightarrow> Inl err | Inr (final, out) \<Rightarrow> Inr (para_text out p))"


text \<open>
  The text of a paragraph of the document that \<open>fill_docx\<close> returns is the text assigned
  to \<open>p.text\<close>. python-docx stores an assigned text as it is when the text is plain: the
  setter turns a carriage return into a line break, which reads back as a line feed, and
  raises \<open>ValueError\<close> on a control character that XML forbids.
\<close>

definition docx_plain :: "string \<Rightarrow> bool" where
  "docx_plain s = list_all (\<lambda>c. 32 \<le> (of_char c :: nat) \<or> c = CHR 0x09 \<or> c = CHR 0x0A) s"

text \<open>
  The requests of a trace, in the order in which they were sent, and the traces in which
  every request is followed at once by its outcome, so that no request is sent while
  another one is waiting for its outcome.
\<close>

fun sent :: "event list \<Rightarrow> request list" where
  "sent [] = []"
| "sent (Sent rq # es) = rq # sent es"
| "sent (Received r # es) = sent es"

fun paired :: "event list \<Rightarrow> bool" where
  "paired [] = True"
| "paired (Sent rq # Received r # es) = paired es"
| "paired es = False"

text \<open>The claim's words, for comparison: an entry for a placeholder in the dict of a field.\<close>

definition has_entry :: "json \<Rightarrow> string \<Rightarrow> string \<Rightarrow> bool" where
  "has_entry res field ph =
     (case res of
        JObj d \<Rightarrow> (case map_of d field of
                    Some (JObj inner) \<Rightarrow> map_of inner ph \<noteq> None
                  | _ \<Rightarrow> False)
      | _ \<Rightarrow> False)"

section \<open>Verification\<close>

subsection \<open>Properties of extract_first_json_block\<close>

lemma find_brace_None: "find_brace s = None \<longleftrightarrow> CHR ''{'' \<notin> set s"
  by (induction s) (auto split: option.splits)

lemma find_brace_Some: "find_brace s = Some i \<Longrightarrow> drop i s = from_first_brace s \<and> i < length s \<and> s ! i = CHR ''{''"
  by (induction s arbitrary: i) (auto simp: from_first_brace_def split: option.splits if_splits)

lemma brace_loop_None:
  "1 \<le> b \<Longrightarrow> (\<And>n. 0 < n \<Longrightarrow> n \<le> length s \<Longrightarrow> b + depth (take n s) \<noteq> 0) \<Longrightarrow> brace_loop s b i = None"
proof (induction s arbitrary: b i)
  case Nil
  then show ?case by simp
next
  case (Cons c cs)
  have step: "\<And>n. 0 < n \<Longrightarrow> n \<le> length cs \<Longrightarrow> b + depth (take (Suc n) (c # cs)) \<noteq> 0"
    using Cons.prems(2)[of "Suc n" for n] by simp
  have one: "b + depth (take 1 (c # cs)) \<noteq> 0"
    using Cons.prems(2)[of 1] by simp
  show ?case
  proof (cases "c = CHR ''{''")
    case True
    have "brace_loop cs (b + 1) (Suc i) = None"
      by (rule Cons.IH) (use Cons.prems(1) step True in \<open>auto simp: algebra_simps\<close>)
    then show ?thesis using True by simp
  next
    case False
    show ?thesis
    proof (cases "c = CHR ''}''")
      case True
      have nz: "b - 1 \<noteq> 0" using one True by simp
      have "brace_loop cs (b - 1) (Suc i) = None"
        by (rule Cons.IH) (use Cons.prems(1) nz step True in \<open>auto simp: algebra_simps\<close>)
      then show ?thesis using True nz by simp
    next
      case F2: False
      have "brace_loop cs b (Suc i) = None"
        by (rule Cons.IH) (use Cons.prems(1) step False F2 in \<open>auto simp: algebra_simps\<close>)
      then show ?thesis using False F2 by simp
    qed
  qed
qed

lemma brace_loop_Some:
  "1 \<le> b \<Longrightarrow> 0 < n \<Longrightarrow> n \<le> length s \<Longrightarrow> b + depth (take n s) = 0 \<Longrightarrow>
   (\<And>m. 0 < m \<Longrightarrow> m < n \<Longrightarrow> b + depth (take m s) \<noteq> 0) \<Longrightarrow> brace_loop s b i = Some (i + n - 1)"
proof (induction s arbitrary: b i n)
  case Nil
  then show ?case by simp
next
  case (Cons c cs)
  obtain k where n: "n = Suc k" using Cons.prems(2) by (cases n) auto
  have dk: "b + depth (c # take k cs) = 0" using Cons.prems(4) n by simp
  have step: "\<And>m. 0 < m \<Longrightarrow> m < k \<Longrightarrow> b + depth (c # take m cs) \<noteq> 0"
    using Cons.prems(5)[of "Suc m" for m] n by simp
  have one: "1 < n \<Longrightarrow> b + depth [c] \<noteq> 0"
    using Cons.prems(5)[of 1] by simp
  show ?case
  proof (cases "c = CHR ''{''")
    case True
    have k0: "0 < k" using dk True Cons.prems(1) by (cases k) auto
    have "brace_loop cs (b + 1) (Suc i) = Some (Suc i + k - 1)"
      by (rule Cons.IH) (use Cons.prems(1,3) k0 n dk step True in \<open>auto simp: algebra_simps\<close>)
    then show ?thesis using True n k0 by simp
  next
    case False
    show ?thesis
    proof (cases "c = CHR ''}''")
      case True
      show ?thesis
      proof (cases "b - 1 = 0")
        case T: True
        have "n = 1" using one True T by (cases "1 < n") (use Cons.prems(2) in auto)
        then show ?thesis using True T by simp
      next
        case F: False
        have k0: "0 < k" using dk True F by (cases k) auto
        have "brace_loop cs (b - 1) (Suc i) = Some (Suc i + k - 1)"
          by (rule Cons.IH) (use Cons.prems(1,3) F k0 n dk step True in \<open>auto simp: algebra_simps\<close>)
        then show ?thesis using True F n k0 by simp
      qed
    next
      case F2: False
      have k0: "0 < k" using dk False F2 Cons.prems(1) by (cases k) auto
      have "brace_loop cs b (Suc i) = Some (Suc i + k - 1)"
        by (rule Cons.IH) (use Cons.prems(1,3) k0 n dk step False F2 in \<open>auto simp: algebra_simps\<close>)
      then show ?thesis using False F2 n k0 by simp
    qed
  qed
qed


lemma from_first_brace_Cons:
  "CHR ''{'' \<in> set s \<Longrightarrow> \<exists>cs. from_first_brace s = CHR ''{'' # cs"
  by (induction s) (auto simp: from_first_brace_def)

text \<open>
  Claim C9. For every input, \<open>extract_first_json_block\<close> returns the substring that
  starts at the first opening brace and ends at the brace that balances it, counting
  nested braces: the shortest non-empty prefix of the text from the first opening brace
  whose depth is zero. It returns the empty string when the input has no opening brace,
  or when no prefix from the first opening brace is balanced.
\<close>

theorem extract_first_json_block_spec:
  "extract_first_json_block s =
     (if CHR ''{'' \<notin> set s then []
      else if \<exists>n. balanced_at (from_first_brace s) n
           then take (LEAST n. balanced_at (from_first_brace s) n) (from_first_brace s)
           else [])"
proof (cases "find_brace s")
  case None
  have "CHR ''{'' \<notin> set s"
    using None find_brace_None by blast
  then show ?thesis
    using None by (simp add: extract_first_json_block_def)
next
  case (Some start)
  define t where "t = from_first_brace s"
  have dr: "drop start s = t" and inset: "CHR ''{'' \<in> set s"
    using find_brace_Some[OF Some] find_brace_None[of s] Some by (auto simp: t_def)
  obtain cs where t: "t = CHR ''{'' # cs"
    using inset from_first_brace_Cons unfolding t_def by blast
  have loop: "brace_loop t 0 start = brace_loop cs 1 (Suc start)"
    by (simp add: t)
  have bal: "balanced_at t n \<longleftrightarrow> (\<exists>k. n = Suc k \<and> 0 < k \<and> k \<le> length cs \<and> 1 + depth (take k cs) = 0)" for n
    by (cases n; cases "n - 1") (auto simp: balanced_at_def t)
  show ?thesis
  proof (cases "\<exists>n. balanced_at t n")
    case False
    then have "brace_loop cs 1 (Suc start) = None"
      by (intro brace_loop_None) (auto simp: bal)
    then have "extract_first_json_block s = []"
      using Some by (simp add: extract_first_json_block_def dr loop)
    then show ?thesis
      using False inset unfolding t_def by auto
  next
    case True
    define n where "n = (LEAST n. balanced_at t n)"
    have bn: "balanced_at t n" and least: "\<And>m. m < n \<Longrightarrow> \<not> balanced_at t m"
      using True unfolding n_def by (auto intro: LeastI dest: not_less_Least)
    obtain k where k: "n = Suc k" "0 < k" "k \<le> length cs" "1 + depth (take k cs) = 0"
      using bn bal by auto
    have "brace_loop cs 1 (Suc start) = Some (Suc start + k - 1)"
    proof (rule brace_loop_Some)
      fix m assume m: "0 < m" "m < k"
      then have "\<not> balanced_at t (Suc m)" using least k(1) by simp
      then show "1 + depth (take m cs) \<noteq> 0" using m k(3) by (auto simp: bal)
    qed (use k in auto)
    then have "extract_first_json_block s = take n t"
      using Some k by (simp add: extract_first_json_block_def dr loop)
    then show ?thesis
      using True inset unfolding t_def n_def by auto
  qed
qed

subsection \<open>Properties of find_placeholders\<close>

lemma not_word_brackets [simp]: "\<not> is_word_char CHR ''[''" "\<not> is_word_char CHR '']''"
  by (simp_all add: is_word_char_def)

lemma sublist_skip_prefix:
  assumes "sublist (x # xs) (ys @ zs)" and "x \<notin> set ys"
  shows "sublist (x # xs) zs"
  using assms
proof (induction ys)
  case Nil
  then show ?case by simp
next
  case (Cons y ys)
  from Cons.prems have neq: "x \<noteq> y" and notin: "x \<notin> set ys" by auto
  have "sublist (x # xs) (y # (ys @ zs))"
    using Cons.prems(1) by simp
  then have "prefix (x # xs) (y # (ys @ zs)) \<or> sublist (x # xs) (ys @ zs)"
    by (simp only: sublist_Cons_right)
  with neq have "sublist (x # xs) (ys @ zs)" by simp
  with notin show ?case using Cons.IH by blast
qed

lemma word_run_unique:
  assumes "prefix (name @ [CHR '']'']) cs" and "list_all is_word_char name"
  shows "takeWhile is_word_char cs = name \<and> (\<exists>post. dropWhile is_word_char cs = CHR '']'' # post)"
proof -
  from assms(1) obtain post where cs: "cs = name @ CHR '']'' # post"
    by (auto simp: prefix_def)
  have all: "\<forall>c \<in> set name. is_word_char c"
    using assms(2) by (simp add: list_all_iff)
  have "takeWhile is_word_char cs = name"
    unfolding cs using all by (simp add: takeWhile_append2)
  moreover have "dropWhile is_word_char cs = CHR '']'' # post"
    unfolding cs using all by (simp add: dropWhile_append2)
  ultimately show ?thesis by blast
qed

lemma findall_placeholders_iff:
  "name \<in> set (findall_placeholders s) \<longleftrightarrow> bracketed name s"
proof (induction s arbitrary: name rule: findall_placeholders.induct)
  case 1
  then show ?case by (simp add: bracketed_def)
next
  case (2 c cs)
  let ?tok = "CHR ''['' # name @ [CHR '']'']"
  let ?w = "takeWhile is_word_char cs"
  let ?ok = "name \<noteq> [] \<and> list_all is_word_char name"
  have split_sub: "sublist ?tok (c # cs) \<longleftrightarrow> prefix ?tok (c # cs) \<or> sublist ?tok cs"
    by (rule sublist_Cons_right)
  show ?case
  proof (cases "c = CHR ''['' \<and> (\<exists>rest. dropWhile is_word_char cs = CHR '']'' # rest) \<and> ?w \<noteq> []")
    case True
    then obtain rest where c: "c = CHR ''[''" and dw: "dropWhile is_word_char cs = CHR '']'' # rest"
      and wne: "?w \<noteq> []" by blast
    have cs: "cs = ?w @ CHR '']'' # rest"
      using dw by (metis takeWhile_dropWhile_id)
    have res: "findall_placeholders (c # cs) = ?w # findall_placeholders rest"
      using c dw wne by simp
    have IH: "name \<in> set (findall_placeholders rest) \<longleftrightarrow> bracketed name rest"
      using "2.IH"(2)[OF c dw] wne by simp
    have wall: "list_all is_word_char ?w"
      by (simp add: list_all_iff) (meson set_takeWhileD)
    have pre: "?ok \<Longrightarrow> prefix ?tok (c # cs) \<longleftrightarrow> name = ?w"
    proof
      assume ok: ?ok and "prefix ?tok (c # cs)"
      then have "prefix (name @ [CHR '']'']) cs" by (simp add: c)
      with ok show "name = ?w" using word_run_unique by metis
    next
      assume nw: "name = ?w"
      have "c # cs = ?tok @ rest"
        unfolding nw using cs c by simp
      then show "prefix ?tok (c # cs)"
        by (simp only: prefixI)
    qed
    have "CHR ''['' \<notin> set (?w @ [CHR '']''])"
      using wall by (auto simp: list_all_iff dest: set_takeWhileD)
    then have fwd: "sublist ?tok ((?w @ [CHR '']'']) @ rest) \<Longrightarrow> sublist ?tok rest"
      by (rule sublist_skip_prefix[rotated])
    have cs2: "cs = (?w @ [CHR '']'']) @ rest"
      using cs by simp
    have bwd: "sublist ?tok rest \<Longrightarrow> sublist ?tok cs"
    proof -
      assume "sublist ?tok rest"
      then obtain p q where "rest = p @ ?tok @ q" by (auto simp: sublist_def)
      then have "cs = ((?w @ [CHR '']'']) @ p) @ ?tok @ q" using cs2 by simp
      then show "sublist ?tok cs" unfolding sublist_def by blast
    qed
    have tail: "sublist ?tok cs \<longleftrightarrow> sublist ?tok rest"
      using fwd bwd cs2 by metis
    show ?thesis
      unfolding res using IH pre tail wne wall split_sub
      by (auto simp: bracketed_def)
  next
    case False
    then have res: "findall_placeholders (c # cs) = findall_placeholders cs"
      by (auto split: list.splits)
    have IH: "name \<in> set (findall_placeholders cs) \<longleftrightarrow> bracketed name cs"
    proof (cases "c = CHR ''[''")
      case T: True
      show ?thesis
      proof (cases "dropWhile is_word_char cs")
        case Nil
        then show ?thesis using "2.IH"(1)[OF T] by simp
      next
        case (Cons r rest)
        then show ?thesis using "2.IH"(3)[OF T Cons] False T by auto
      qed
    next
      case F: False
      then show ?thesis using "2.IH"(4) by simp
    qed
    have "?ok \<Longrightarrow> \<not> prefix ?tok (c # cs)"
    proof
      assume ok: ?ok and p: "prefix ?tok (c # cs)"
      then have c: "c = CHR ''[''" and "prefix (name @ [CHR '']'']) cs" by auto
      then have "?w = name \<and> (\<exists>post. dropWhile is_word_char cs = CHR '']'' # post)"
        using word_run_unique ok by blast
      with False c ok show False by auto
    qed
    then show ?thesis
      unfolding res using IH split_sub by (auto simp: bracketed_def)
  qed
qed

lemma set_fold_insert: "set (fold List.insert xs ys) = set xs \<union> set ys"
  by (induction xs arbitrary: ys) auto

lemma distinct_fold_insert: "distinct ys \<Longrightarrow> distinct (fold List.insert xs ys)"
  by (induction xs arbitrary: ys) auto

lemma set_scan:
  "set (scan txt found ps) = set found \<union> (\<Union>p\<in>set ps. set (findall_placeholders (txt p)))"
  by (induction ps arbitrary: found) (auto simp: set_fold_insert)

lemma distinct_scan: "distinct found \<Longrightarrow> distinct (scan txt found ps)"
  by (induction ps arbitrary: found) (auto simp: distinct_fold_insert)

lemma set_scan_cells:
  "set (fold (\<lambda>cell found. scan txt found (cell_paragraphs cell)) row found) =
     set found \<union> (\<Union>p\<in>set (concat (map cell_paragraphs row)). set (findall_placeholders (txt p)))"
  by (induction row arbitrary: found) (auto simp: set_scan)

lemma distinct_scan_cells:
  "distinct found \<Longrightarrow>
   distinct (fold (\<lambda>cell found. scan txt found (cell_paragraphs cell)) row found)"
  by (induction row arbitrary: found) (auto simp: distinct_scan)

lemma set_scan_rows:
  "set (fold (\<lambda>row found. fold (\<lambda>cell found. scan txt found (cell_paragraphs cell)) row found)
          t found) =
     set found \<union>
     (\<Union>p\<in>set (concat (map cell_paragraphs (concat t))). set (findall_placeholders (txt p)))"
  by (induction t arbitrary: found) (auto simp: set_scan_cells)

lemma distinct_scan_rows:
  "distinct found \<Longrightarrow>
   distinct (fold (\<lambda>row found. fold (\<lambda>cell found. scan txt found (cell_paragraphs cell)) row found)
               t found)"
  by (induction t arbitrary: found) (auto simp: distinct_scan_cells)

lemma set_scan_tables:
  "set (scan_tables txt found ts) =
     set found \<union>
     (\<Union>p\<in>set (concat (map cell_paragraphs (concat (concat ts)))).
        set (findall_placeholders (txt p)))"
  unfolding scan_tables_def
  by (induction ts arbitrary: found) (auto simp: set_scan_rows)

lemma distinct_scan_tables: "distinct found \<Longrightarrow> distinct (scan_tables txt found ts)"
  unfolding scan_tables_def
  by (induction ts arbitrary: found) (auto simp: distinct_scan_rows)

lemma set_scan_sections:
  "set (scan_sections txt found ss) =
     set found \<union>
     (\<Union>p\<in>set (concat (map (\<lambda>s. part_paragraphs (header s) @ part_paragraphs (footer s)) ss)).
        set (findall_placeholders (txt p)))"
  unfolding scan_sections_def
  by (induction ss arbitrary: found) (auto simp: set_scan)

lemma distinct_scan_sections: "distinct found \<Longrightarrow> distinct (scan_sections txt found ss)"
  unfolding scan_sections_def
  by (induction ss arbitrary: found) (auto simp: distinct_scan)

lemma set_find_placeholders:
  "set (find_placeholders doc) =
     {name. \<exists>p \<in> set (paragraphs doc) \<union> set (scanned_cell_paragraphs doc) \<union>
                   set (scanned_header_footer_paragraphs doc).
              bracketed name (para_text doc p)}"
  by (auto simp: find_placeholders_def Let_def set_scan set_scan_tables set_scan_sections
      scanned_cell_paragraphs_def scanned_header_footer_paragraphs_def findall_placeholders_iff)

lemma distinct_find_placeholders: "distinct (find_placeholders doc)"
  by (simp add: find_placeholders_def Let_def distinct_scan distinct_scan_tables
      distinct_scan_sections)

lemma cell_paragraphs_subset: "set (cell_paragraphs c) \<subseteq> set (all_cell_paragraphs c)"
  by (cases c) simp

lemma scanned_cell_subset:
  "set (scanned_cell_paragraphs doc) \<subseteq> set (table_cell_paragraphs doc)"
  using cell_paragraphs_subset
  by (fastforce simp: scanned_cell_paragraphs_def table_cell_paragraphs_def tables_paragraphs_def)

lemma scanned_header_footer_subset:
  "set (scanned_header_footer_paragraphs doc) \<subseteq> set (header_footer_paragraphs doc)"
  by (auto simp: scanned_header_footer_paragraphs_def header_footer_paragraphs_def
      part_all_paragraphs_def)

lemma demo_find: "find_placeholders demo_template = [''CLAIM_NO'', ''DATE_INSPECTED'', ''INSURED_NAME'']"
  by (simp add: find_placeholders_def demo_template_def no_part_def scan_tables_def
      scan_sections_def is_word_char_def)

text \<open>
  Claim C10, as stated, fails. The names of the result are to be exactly those that occur
  between square brackets in a body paragraph, a table cell paragraph or a header or
  footer paragraph. In \<open>nested_template\<close> the paragraph \<open>inner [NESTED]\<close> is a paragraph of a
  cell of a table nested in a cell, and \<open>cover [COVER]\<close> a paragraph of the header of the
  first page, and the result holds neither name: the loops read \<open>doc.tables\<close>,
  \<open>cell.paragraphs\<close>, \<open>s.header\<close> and \<open>s.footer\<close> only.
\<close>

theorem find_placeholders_counterexample:
  "find_placeholders nested_template = [''OUTER''] \<and>
   1 \<in> set (table_cell_paragraphs nested_template) \<and>
   bracketed ''NESTED'' (para_text nested_template 1) \<and>
   2 \<in> set (header_footer_paragraphs nested_template) \<and>
   bracketed ''COVER'' (para_text nested_template 2)"
  by (simp add: find_placeholders_def nested_template_def no_part_def scan_tables_def
      scan_sections_def is_word_char_def table_cell_paragraphs_def tables_paragraphs_def
      header_footer_paragraphs_def part_all_paragraphs_def bracketed_def sublist_Cons_right)

text \<open>
  Claim C10, amended. For every document, \<open>find_placeholders\<close> returns a sorted list
  without duplicates whose elements are exactly the names, non-empty and made of the
  characters \<open>[A-Za-z0-9_]\<close>, that occur between square brackets in the text of a paragraph
  directly in the body, of an own paragraph of a cell of a table directly in the body, or
  of an own paragraph of the \<open>header\<close> or \<open>footer\<close> of a section. Each of them occurs in a
  body paragraph, a table cell paragraph or a header or footer paragraph of the document.
\<close>

theorem find_placeholders_scanned:
  "sorted (find_placeholders doc) \<and> distinct (find_placeholders doc) \<and>
   set (find_placeholders doc) =
     {name. \<exists>p \<in> set (paragraphs doc) \<union> set (scanned_cell_paragraphs doc) \<union>
                   set (scanned_header_footer_paragraphs doc).
              bracketed name (para_text doc p)} \<and>
   set (find_placeholders doc) \<subseteq>
     {name. \<exists>p \<in> set (paragraphs doc) \<union> set (table_cell_paragraphs doc) \<union>
                   set (header_footer_paragraphs doc).
              bracketed name (para_text doc p)}"
proof -
  have "sorted (find_placeholders doc)"
    by (simp add: find_placeholders_def Let_def)
  moreover have "set (find_placeholders doc) \<subseteq>
     {name. \<exists>p \<in> set (paragraphs doc) \<union> set (table_cell_paragraphs doc) \<union>
                   set (header_footer_paragraphs doc).
              bracketed name (para_text doc p)}"
    unfolding set_find_placeholders
    using scanned_cell_subset[of doc] scanned_header_footer_subset[of doc] by blast
  ultimately show ?thesis
    using set_find_placeholders[of doc] distinct_find_placeholders[of doc] by simp
qed

theorem find_placeholders_scanned_witness:
  "sorted (find_placeholders demo_template) \<and> distinct (find_placeholders demo_template) \<and>
   ''CLAIM_NO'' \<in> set (find_placeholders demo_template) \<and>
   ''Insured'' \<notin> set (find_placeholders demo_template)"
proof -
  have h: "2 \<in> set (scanned_header_footer_paragraphs demo_template)"
    by (simp add: scanned_header_footer_paragraphs_def demo_template_def)
  have b: "bracketed ''CLAIM_NO'' (para_text demo_template 2)"
    by (simp add: bracketed_def demo_template_def is_word_char_def sublist_Cons_right)
  have n: "\<not> bracketed ''Insured'' (para_text demo_template p)" for p
    by (simp add: bracketed_def demo_template_def is_word_char_def sublist_Cons_right)
  show ?thesis
    using find_placeholders_scanned[of demo_template] h b n by blast
qed

subsection \<open>Evaluation of the definitions\<close>

lemmas sample_defs = quoted_def reply_mapping_def reply_number_def reply_cascade_def
  reply_extra_key_def reply_fill_def reply_prose_def sample_loads_def sample_env_def
  chat_reply_def endpoint_def

lemmas py_defs = bind_result_def falsy_get_def setdefault_def py_get_def py_setdefault_def
  nested_setdefault_def subscript_key_def subscript_0_def py_str_def loads_def post_def
  response_content_def call_openrouter_def block_or_text_def extract_first_json_block_def

lemmas run_defs = llm_high_accuracy_def llm_strict_validation_def llm_field_audit_def
  llm_voting_def fallback_structured_def fallback_get_def still_empty_def no_missing_pass_def
  merge_mapping_def run_mode_def run_extraction_def final_map_def votes_def counter_def
  winner_def

subsection \<open>Properties of fill_docx\<close>

lemma repl_apply: "repl e m p store q = (if q = p then repl_text e m (store p) else store q)"
  by (simp add: repl_def)

lemma repl_fold:
  "fold (repl e m) ps store q = (repl_text e m ^^ count_list ps q) (store q)"
proof (induction ps arbitrary: store)
  case Nil
  then show ?case by simp
next
  case (Cons p ps)
  have "fold (repl e m) (p # ps) store q = fold (repl e m) ps (repl e m p store) q"
    by simp
  also have "\<dots> = (repl_text e m ^^ count_list ps q) (repl e m p store q)"
    by (rule Cons.IH)
  also have "\<dots> = (repl_text e m ^^ count_list (p # ps) q) (store q)"
    by (simp add: repl_apply funpow_swap1)
  finally show ?case .
qed

lemma fold_cells:
  "fold (\<lambda>cell. fold f (cell_paragraphs cell)) row s = fold f (concat (map cell_paragraphs row)) s"
  by (induction row arbitrary: s) auto

lemma fold_rows:
  "fold (\<lambda>row. fold (\<lambda>cell. fold f (cell_paragraphs cell)) row) t s =
     fold f (concat (map cell_paragraphs (concat t))) s"
  by (induction t arbitrary: s) (auto simp: fold_cells)

lemma fold_tables:
  "fold (\<lambda>t. fold (\<lambda>row. fold (\<lambda>cell. fold f (cell_paragraphs cell)) row) t) ts s =
     fold f (concat (map cell_paragraphs (concat (concat ts)))) s"
  by (induction ts arbitrary: s) (auto simp: fold_rows)

lemma fill_docx_store:
  "para_text (fill_docx e doc m) =
     fold (repl e m) (paragraphs doc @ scanned_cell_paragraphs doc) (para_text doc)"
  by (simp add: fill_docx_def Let_def scanned_cell_paragraphs_def fold_tables)

lemma fill_docx_structure:
  "paragraphs (fill_docx e doc m) = paragraphs doc \<and> tables (fill_docx e doc m) = tables doc \<and>
   sections (fill_docx e doc m) = sections doc"
  by (simp add: fill_docx_def Let_def)

lemma replace_scan_absent:
  "\<not> sublist old s \<Longrightarrow> replace_scan old new s = s"
proof (induction old new s rule: replace_scan.induct)
  case (1 old new)
  then show ?case by simp
next
  case (2 old new c cs)
  from "2.prems" have np: "\<not> prefix old (c # cs)" and ns: "\<not> sublist old cs"
    by (simp_all add: sublist_Cons_right)
  then show ?case
    using "2.IH"(2) by simp
qed

lemma repl_text_in_order: "repl_text e m s = replace_in_order e m s"
proof (induction m arbitrary: s)
  case Nil
  then show ?case by (simp add: replace_in_order_def)
next
  case (Cons kv m)
  obtain k v where kv: "kv = (k, v)" by (cases kv)
  have "token k \<noteq> []" by (simp add: token_def)
  then have "(if sublist (token k) s then py_replace s (token k) (py_str e v) else s) =
             py_replace s (token k) (py_str e v)"
    by (simp add: py_replace_def replace_scan_absent)
  then show ?case
    using Cons.IH by (simp add: kv replace_in_order_def)
qed

lemma fill_docx_text:
  "para_text (fill_docx e doc m) p =
     (replace_in_order e m ^^ count_list (paragraphs doc @ scanned_cell_paragraphs doc) p) (para_text doc p)"
proof -
  have "repl_text e m = replace_in_order e m"
    by (intro ext) (rule repl_text_in_order)
  then show ?thesis
    by (simp only: fill_docx_store repl_fold)
qed

lemma run_extraction_out:
  "run_extraction e md template s w = (Inr (final, out), w') \<Longrightarrow> out = fill_docx e template final"
  by (auto simp: run_extraction_def Let_def split: prod.splits sum.splits)



subsection \<open>Properties of the merge\<close>

lemma map_of_fill_blanks:
  "map_of (fill_blanks phs fb m) k =
     (if k \<in> set phs \<and> falsy_get m k then Some (JStr (fallback_get fb k)) else map_of m k)"
proof (induction phs arbitrary: m)
  case Nil
  then show ?case by simp
next
  case (Cons ph phs)
  show ?case
    by (auto simp: Cons.IH update_conv' falsy_get_def split: option.splits)
qed


lemma nm_fill_keeps:
  "map_of m k = Some v \<Longrightarrow> v \<noteq> JStr [] \<Longrightarrow> map_of (snd (nm_fill items m)) k = Some v"
proof (induction items arbitrary: m)
  case Nil
  then show ?case by simp
next
  case (Cons kv items)
  obtain k' v' where kv: "kv = (k', v')" by (cases kv)
  show ?case
    using Cons.prems by (auto simp: kv update_conv' intro!: Cons.IH split: option.splits)
qed

lemma nm_fill_keys: "map fst (snd (nm_fill items m)) = map fst m"
proof (induction items arbitrary: m)
  case Nil
  then show ?case by simp
next
  case (Cons kv items)
  obtain k' v' where kv: "kv = (k', v')" by (cases kv)
  have upd: "map_of m k' \<noteq> None \<Longrightarrow> map fst (AList.update k' v' m) = map fst m"
    by (metis update_keys domIff dom_map_of_conv_image_fst image_set not_None_eq)
  show ?case
    using upd by (auto simp: kv Cons.IH split: option.splits)
qed



lemma no_missing_pass_cases:
  assumes "no_missing_pass e s m w = (err, m', w')"
  shows "m' = m \<or>
         (\<exists>txt nm_map. json_loads e txt = Some (JObj nm_map) \<and> nm_fill nm_map m = (err, m'))"
  using assms
  by (auto simp: no_missing_pass_def Let_def bind_result_def loads_def
      split: if_splits prod.splits sum.splits json.splits option.splits)



lemma no_missing_pass_keeps:
  assumes "no_missing_pass e s m w = (err, m', w')"
  shows "map fst m' = map fst m"
    and "map_of m k = Some v \<Longrightarrow> v \<noteq> JStr [] \<Longrightarrow> map_of m' k = Some v"
  using no_missing_pass_cases[OF assms] nm_fill_keys nm_fill_keeps
  by (metis snd_conv)+


lemma merge_mapping_dict:
  "merge_mapping e phs fb s (JObj m0) w =
     (Inr (fst (snd (no_missing_pass e s (fill_blanks phs fb m0) w))),
      snd (snd (no_missing_pass e s (fill_blanks phs fb m0) w)))"
  by (simp add: merge_mapping_def Let_def split: prod.splits)

subsection \<open>The run: the merge of the mapping\<close>


lemma merge_mapping_final:
  assumes "merge_mapping e phs fb s (JObj m0) w = (Inr final, w')"
  obtains err where "no_missing_pass e s (fill_blanks phs fb m0) w = (err, final, w')"
  using assms by (auto simp: merge_mapping_def Let_def split: prod.splits)

lemma run_mapping_Inr:
  "run_mapping r = Inr final \<Longrightarrow> \<exists>out w'. r = (Inr (final, out), w')"
  by (cases r; cases "fst r") (auto simp: run_mapping_def)


text \<open>
  Claim C2. In the merge step, a placeholder whose value in the mapping of the mode is a
  non-empty string keeps that value, in the mapping after the fallback loop and in the
  final mapping after the inference pass. A value of the mapping changes in the fallback
  loop only for a placeholder whose value is absent or falsy, and then it becomes the
  fallback value.
\<close>

theorem merge_keeps_llm_value:
  "(map_of m0 ph = Some (JStr v) \<and> v \<noteq> [] \<longrightarrow>
      map_of (fill_blanks phs fb m0) ph = Some (JStr v) \<and>
      (\<forall>final w'. merge_mapping e phs fb s (JObj m0) w = (Inr final, w') \<longrightarrow>
         map_of final ph = Some (JStr v))) \<and>
   (map_of (fill_blanks phs fb m0) ph \<noteq> map_of m0 ph \<longrightarrow>
      ph \<in> set phs \<and> falsy_get m0 ph \<and>
      map_of (fill_blanks phs fb m0) ph = Some (JStr (fallback_get fb ph)))"
proof (intro conjI impI allI)
  assume a: "map_of m0 ph = Some (JStr v) \<and> v \<noteq> []"
  then show kept: "map_of (fill_blanks phs fb m0) ph = Some (JStr v)"
    by (simp add: map_of_fill_blanks falsy_get_def)
  fix final w'
  assume "merge_mapping e phs fb s (JObj m0) w = (Inr final, w')"
  then obtain err where "no_missing_pass e s (fill_blanks phs fb m0) w = (err, final, w')"
    by (rule merge_mapping_final)
  then show "map_of final ph = Some (JStr v)"
    using kept a no_missing_pass_keeps(2) by blast
next
  assume "map_of (fill_blanks phs fb m0) ph \<noteq> map_of m0 ph"
  then show "ph \<in> set phs" "falsy_get m0 ph"
    "map_of (fill_blanks phs fb m0) ph = Some (JStr (fallback_get fb ph))"
    by (auto simp: map_of_fill_blanks split: if_splits)
qed

theorem merge_keeps_llm_value_witness:
  "map_of (fill_blanks [''CLAIM_NO'', ''DATE_INSPECTED'', ''INSURED_NAME'']
             [(''DATE_INSPECTED'', ''01/02/2024'')] [(''INSURED_NAME'', JStr ''Ann'')]) ''INSURED_NAME'' =
     Some (JStr ''Ann'') \<and>
   fst (merge_mapping sample_env [''CLAIM_NO'', ''DATE_INSPECTED'', ''INSURED_NAME'']
          [(''DATE_INSPECTED'', ''01/02/2024'')] [] (JObj [(''INSURED_NAME'', JStr ''Ann'')])
          (endpoint [chat_reply reply_extra_key])) =
     Inr [(''INSURED_NAME'', JStr ''Ann''), (''CLAIM_NO'', JStr ''C-7''),
          (''DATE_INSPECTED'', JStr ''01/02/2024'')] \<and>
   falsy_get [(''INSURED_NAME'', JStr ''Ann'')] ''DATE_INSPECTED'' \<and>
   map_of (fill_blanks [''CLAIM_NO'', ''DATE_INSPECTED'', ''INSURED_NAME'']
             [(''DATE_INSPECTED'', ''01/02/2024'')] [(''INSURED_NAME'', JStr ''Ann'')]) ''DATE_INSPECTED'' =
     Some (JStr ''01/02/2024'')"
proof -
  let ?phs = "[''CLAIM_NO'', ''DATE_INSPECTED'', ''INSURED_NAME'']"
  let ?fb = "[(''DATE_INSPECTED'', ''01/02/2024'')]"
  let ?m0 = "[(''INSURED_NAME'', JStr ''Ann'')]"
  let ?w = "endpoint [chat_reply reply_extra_key]"
  let ?final = "[(''INSURED_NAME'', JStr ''Ann''), (''CLAIM_NO'', JStr ''C-7''),
          (''DATE_INSPECTED'', JStr ''01/02/2024'')]"
  have llm: "map_of ?m0 ''INSURED_NAME'' = Some (JStr ''Ann'') \<and> ''Ann'' \<noteq> []"
    by simp
  have mg: "fst (merge_mapping sample_env ?phs ?fb [] (JObj ?m0) ?w) = Inr ?final"
    by (simp add: sample_defs py_defs run_defs Let_def)
  have changed: "map_of (fill_blanks ?phs ?fb ?m0) ''DATE_INSPECTED'' \<noteq> map_of ?m0 ''DATE_INSPECTED''"
    by (simp add: py_defs run_defs)
  have a: "map_of (fill_blanks ?phs ?fb ?m0) ''INSURED_NAME'' = Some (JStr ''Ann'')"
    using merge_keeps_llm_value[of ?m0 "''INSURED_NAME''" "''Ann''" ?phs ?fb sample_env "[]" ?w] llm
    by blast
  have b: "falsy_get ?m0 ''DATE_INSPECTED'' \<and>
      map_of (fill_blanks ?phs ?fb ?m0) ''DATE_INSPECTED'' = Some (JStr (fallback_get ?fb ''DATE_INSPECTED''))"
    using merge_keeps_llm_value[of ?m0 "''DATE_INSPECTED''" "''Ann''" ?phs ?fb sample_env "[]" ?w] changed
    by blast
  have "fallback_get ?fb ''DATE_INSPECTED'' = ''01/02/2024''"
    by (simp add: fallback_get_def)
  with a b mg show ?thesis by simp
qed










subsection \<open>The document offered for download\<close>

lemma docx_plain_append [simp]: "docx_plain (a @ b) \<longleftrightarrow> docx_plain a \<and> docx_plain b"
  by (simp add: docx_plain_def)

lemma docx_plain_drop: "docx_plain s \<Longrightarrow> docx_plain (drop n s)"
  unfolding docx_plain_def list_all_iff by (meson in_set_dropD)

lemma replace_scan_plain:
  "docx_plain s \<Longrightarrow> docx_plain new \<Longrightarrow> docx_plain (replace_scan old new s)"
proof (induction old new s rule: replace_scan.induct)
  case (1 old new)
  then show ?case by simp
next
  case (2 old new c cs)
  have c: "docx_plain [c]" and cs: "docx_plain cs"
    using "2.prems"(1) by (simp_all add: docx_plain_def)
  show ?case
  proof (cases "old \<noteq> [] \<and> prefix old (c # cs)")
    case True
    have "docx_plain (drop (length old) (c # cs))"
      using "2.prems"(1) by (rule docx_plain_drop)
    then have "docx_plain (replace_scan old new (drop (length old) (c # cs)))"
      using "2.IH"(1) True "2.prems"(2) by blast
    then show ?thesis
      using True "2.prems"(2) by simp
  next
    case False
    have "docx_plain (replace_scan old new cs)"
      using "2.IH"(2) False cs "2.prems"(2) by blast
    then have "docx_plain ([c] @ replace_scan old new cs)"
      using c by (simp only: docx_plain_append)
    then show ?thesis
      using False by auto
  qed
qed

lemma py_replace_plain:
  "docx_plain s \<Longrightarrow> docx_plain new \<Longrightarrow> docx_plain (py_replace s old new)"
proof (cases "old = []")
  case True
  assume s: "docx_plain s" and n: "docx_plain new"
  have "docx_plain (concat (map (\<lambda>c. c # new) s))"
    using s n by (induction s) (auto simp: docx_plain_def)
  then show ?thesis
    using True n by (simp add: py_replace_def)
next
  case False
  assume "docx_plain s" "docx_plain new"
  then show ?thesis
    using False by (simp add: py_replace_def replace_scan_plain)
qed

lemma replace_in_order_plain:
  "list_all (\<lambda>(k, v). docx_plain (py_str e v)) m \<Longrightarrow> docx_plain s \<Longrightarrow>
   docx_plain (replace_in_order e m s)"
  unfolding replace_in_order_def
  by (induction m arbitrary: s) (auto simp: py_replace_plain)

lemma funpow_plain:
  "(\<And>s. docx_plain s \<Longrightarrow> docx_plain (f s)) \<Longrightarrow> docx_plain s \<Longrightarrow> docx_plain ((f ^^ n) s)"
  by (induction n) auto

text \<open>
  Claim C5, as stated, fails. The document offered is to be the template in which every
  occurrence of a token is replaced by the string of the value of its key. In the
  high-accuracy mode, with a reply that gives \<open>[INSURED_NAME]\<close> as the value of
  \<open>DATE_INSPECTED\<close> and \<open>Ann\<close> as the value of \<open>INSURED_NAME\<close>, the cell paragraph
  \<open>Inspected [DATE_INSPECTED] for [INSURED_NAME]\<close> of the template becomes
  \<open>Inspected Ann for Ann\<close>: the token that the first value brought in was replaced by the
  next key. With every occurrence of a token of the template replaced by its value the
  text would be \<open>Inspected [INSURED_NAME] for Ann\<close>.
\<close>

theorem download_counterexample:
  "run_mapping (run_extraction sample_env HighAccuracy demo_template []
     (endpoint [chat_reply reply_cascade, StatusError])) =
     Inr [(''DATE_INSPECTED'', JStr ''[INSURED_NAME]''), (''INSURED_NAME'', JStr ''Ann''),
          (''CLAIM_NO'', JStr [])] \<and>
   run_text (run_extraction sample_env HighAccuracy demo_template []
     (endpoint [chat_reply reply_cascade, StatusError])) 1 = Inr ''Inspected Ann for Ann'' \<and>
   1 \<in> set (scanned_cell_paragraphs demo_template) \<and>
   replace_tokens sample_env
     [(''DATE_INSPECTED'', JStr ''[INSURED_NAME]''), (''INSURED_NAME'', JStr ''Ann''),
      (''CLAIM_NO'', JStr [])] (para_text demo_template 1) = ''Inspected [INSURED_NAME] for Ann''"
proof -
  have run: "run_extraction sample_env HighAccuracy demo_template []
     (endpoint [chat_reply reply_cascade, StatusError]) =
     (Inr ([(''DATE_INSPECTED'', JStr ''[INSURED_NAME]''), (''INSURED_NAME'', JStr ''Ann''),
          (''CLAIM_NO'', JStr [])],
        fill_docx sample_env demo_template
          [(''DATE_INSPECTED'', JStr ''[INSURED_NAME]''), (''INSURED_NAME'', JStr ''Ann''),
          (''CLAIM_NO'', JStr [])]),
      \<lparr>pending = [], trace = [Sent \<lparr>messages = HighAccuracyPrompt [''CLAIM_NO'', ''DATE_INSPECTED'', ''INSURED_NAME''] [],
          temperature = 0, max_tokens = 1500\<rparr>, Received (chat_reply reply_cascade),
          Sent \<lparr>messages = NoMissingPrompt [''CLAIM_NO''] [], temperature = 0, max_tokens = 800\<rparr>,
          Received StatusError]\<rparr>)"
    by (simp add: demo_find sample_defs py_defs run_defs Let_def)
  have text1: "para_text (fill_docx sample_env demo_template
          [(''DATE_INSPECTED'', JStr ''[INSURED_NAME]''), (''INSURED_NAME'', JStr ''Ann''),
          (''CLAIM_NO'', JStr [])]) 1 = ''Inspected Ann for Ann''"
    by (simp add: fill_docx_def demo_template_def repl_def token_def py_replace_def py_str_def
        sublist_Cons_right Let_def)
  have spec: "replace_tokens sample_env
     [(''DATE_INSPECTED'', JStr ''[INSURED_NAME]''), (''INSURED_NAME'', JStr ''Ann''),
      (''CLAIM_NO'', JStr [])] (para_text demo_template 1) = ''Inspected [INSURED_NAME] for Ann''"
    by (simp add: demo_template_def token_def py_str_def)
  have cell: "1 \<in> set (scanned_cell_paragraphs demo_template)"
    by (simp add: scanned_cell_paragraphs_def demo_template_def)
  show ?thesis
    by (simp only: run run_mapping_def run_text_def fst_conv sum.case prod.case text1 spec cell
        simp_thms)
qed

text \<open>
  Claim C5, amended. The document offered for download is \<open>fill_docx\<close> applied to the
  template and the final mapping. It has the body, the tables and the sections of the
  template. The text of a paragraph is the text of the template in which the tokens
  \<open>[K]\<close> are replaced by the strings of their values one key after the other, in the
  order of the mapping, each replacement made in the text that the one before has left;
  this is done once for each time the paragraph is listed in the body or as an own
  paragraph of a cell of a table of the body, and not at all for a paragraph listed
  nowhere there. This holds for plain texts and values, which python-docx stores as they
  are assigned, and the resulting text is plain.
\<close>

theorem download_replaces_in_order:
  assumes "run_extraction e md template s w = (Inr (final, out), w')"
    and "list_all (\<lambda>(k, v). docx_plain (py_str e v)) final"
    and "docx_plain (para_text template p)"
  shows "out = fill_docx e template final \<and>
         para_text out p =
           (replace_in_order e final ^^
              count_list (paragraphs template @ scanned_cell_paragraphs template) p)
             (para_text template p) \<and>
         docx_plain (para_text out p) \<and>
         paragraphs out = paragraphs template \<and> tables out = tables template \<and>
         sections out = sections template"
proof -
  have o1: "out = fill_docx e template final"
    using assms(1) by (rule run_extraction_out)
  have t1: "para_text out p =
           (replace_in_order e final ^^
              count_list (paragraphs template @ scanned_cell_paragraphs template) p)
             (para_text template p)"
    unfolding o1 by (rule fill_docx_text)
  have "docx_plain ((replace_in_order e final ^^
              count_list (paragraphs template @ scanned_cell_paragraphs template) p)
             (para_text template p))"
    using assms(2,3) by (intro funpow_plain replace_in_order_plain)
  then have "docx_plain (para_text out p)"
    by (simp only: t1)
  with o1 t1 show ?thesis
    using fill_docx_structure[of e template final] by simp
qed

theorem download_replaces_in_order_witness:
  "run_mapping (run_extraction sample_env HighAccuracy demo_template []
     (endpoint [chat_reply reply_mapping, chat_reply reply_fill])) =
     Inr [(''INSURED_NAME'', JStr ''Ann''), (''CLAIM_NO'', JStr ''C-7''),
          (''DATE_INSPECTED'', JStr ''01/02/2024'')] \<and>
   run_text (run_extraction sample_env HighAccuracy demo_template []
     (endpoint [chat_reply reply_mapping, chat_reply reply_fill])) 1 =
     Inr ''Inspected 01/02/2024 for Ann''"
proof -
  define w where "w = endpoint [chat_reply reply_mapping, chat_reply reply_fill]"
  define final where
    "final = [(''INSURED_NAME'', JStr ''Ann''), (''CLAIM_NO'', JStr ''C-7''),
        (''DATE_INSPECTED'', JStr ''01/02/2024'')]"
  have rmap: "run_mapping (run_extraction sample_env HighAccuracy demo_template [] w) = Inr final"
    unfolding w_def final_def
    by (simp add: demo_find run_mapping_def sample_defs py_defs run_defs Let_def)
  then have "\<exists>out w'. run_extraction sample_env HighAccuracy demo_template [] w =
      (Inr (final, out), w')"
    by (rule run_mapping_Inr)
  then obtain out w' where run:
      "run_extraction sample_env HighAccuracy demo_template [] w = (Inr (final, out), w')"
    by (elim exE)
  have vals: "list_all (\<lambda>(k, v). docx_plain (py_str sample_env v)) final"
    unfolding final_def by (simp add: docx_plain_def py_str_def)
  have plain: "docx_plain (para_text demo_template 1)"
    by (simp add: docx_plain_def demo_template_def)
  have rhs: "(replace_in_order sample_env final ^^
              count_list (paragraphs demo_template @ scanned_cell_paragraphs demo_template) 1)
             (para_text demo_template 1) = ''Inspected 01/02/2024 for Ann''"
    unfolding final_def
    by (simp add: demo_template_def scanned_cell_paragraphs_def replace_in_order_def token_def
        py_replace_def py_str_def)
  have "para_text out 1 = ''Inspected 01/02/2024 for Ann''"
    using download_replaces_in_order[OF run vals plain, THEN conjunct2, THEN conjunct1] rhs
    by (rule trans)
  then have "run_text (run_extraction sample_env HighAccuracy demo_template [] w) 1 =
      Inr ''Inspected 01/02/2024 for Ann''"
    by (simp add: run run_text_def)
  then show ?thesis
    using rmap unfolding w_def final_def by simp
qed

end
